theory Spec2Isabelle
  imports
    Main
    "HOL-Library.Word"
    "HOL-Library.Sublist"
    "HOL-Library.AList"
    "HOL-Library.Char_ord"
    "HOL-Library.List_Lexorder"
    "HOL-Library.Multiset"
begin

unbundle bit_operations_syntax

section \<open>The file system the supervisor works on\<close>

text \<open>
  The supervisor (\<^verbatim>\<open>supervisor/supervisor.go\<close>) keeps its whole state on disk: version
  directories, the \<^verbatim>\<open>current\<close> link, the \<^verbatim>\<open>previous-*\<close> backup links and the link in the
  bin directory. The operating system is modelled by a finite table from absolute paths
  to nodes.

  \<^item> A path is the list of its components: \<^verbatim>\<open>/usr/local/lib\<close> is
    \<open>[''usr'', ''local'', ''lib'']\<close>, the root is \<open>[]\<close>; \<^verbatim>\<open>filepath.Join\<close> is
    \<open>@\<close>. Every name the program joins (binary name, version, link names) is one
    component.
  \<^item> A symbolic link stores an absolute path, as every link the supervisor creates does.
  \<^item> A call fails exactly when the state of the file system makes it fail (a missing
    entry, an existing name, a parent that is no directory, a directory that is not
    empty, a chain of more than 40 links). There are no permissions and no I/O faults.
  \<^item> \<^verbatim>\<open>Lstat\<close>, \<^verbatim>\<open>Readlink\<close>, \<^verbatim>\<open>Symlink\<close>, \<^verbatim>\<open>Rename\<close>, \<^verbatim>\<open>Remove\<close>, \<^verbatim>\<open>ReadDir\<close> and \<^verbatim>\<open>MkdirAll\<close> address
    an entry by its literal path, whose parent has to be a real directory; \<^verbatim>\<open>Stat\<close>,
    \<^verbatim>\<open>Open\<close> and \<^verbatim>\<open>Chmod\<close> follow symbolic links in every component.
\<close>

type_synonym path = "string list"
type_synonym byte = "8 word"
type_synonym FileMode = "32 word"

datatype node = Dir | File FileMode "byte list" | Symlink path

type_synonym fs = "(path \<times> node) list"

definition lookup :: "fs \<Rightarrow> path \<Rightarrow> node option" where
  "lookup fs p = (if p = [] then Some Dir else map_of fs p)"

definition put :: "path \<Rightarrow> node \<Rightarrow> fs \<Rightarrow> fs" where
  "put p n fs = AList.update p n fs"

definition del :: "path \<Rightarrow> fs \<Rightarrow> fs" where
  "del p fs = AList.delete p fs"

definition children :: "fs \<Rightarrow> path \<Rightarrow> string list" where
  "children fs d = sort (remdups (map last (filter (\<lambda>p. p \<noteq> [] \<and> butlast p = d) (map fst fs))))"

definition is_symlink :: "node option \<Rightarrow> bool" where
  "is_symlink n = (case n of Some (Symlink t) \<Rightarrow> True | _ \<Rightarrow> False)"

definition os_Lstat :: "fs \<Rightarrow> path \<Rightarrow> node option" where
  "os_Lstat fs p = lookup fs p"

definition os_Readlink :: "fs \<Rightarrow> path \<Rightarrow> path option" where
  "os_Readlink fs p = (case lookup fs p of Some (Symlink t) \<Rightarrow> Some t | _ \<Rightarrow> None)"

text \<open>
  Path resolution, as the kernel does it for \<^verbatim>\<open>stat(2)\<close>: \<open>walk k fs cur rest\<close> has
  resolved the directory \<open>cur\<close> and still has to walk \<open>rest\<close>; a link restarts at the
  root with its target, and \<open>k\<close> counts the links that may still be followed (\<^verbatim>\<open>ELOOP\<close>
  after 40).
\<close>

fun walk :: "nat \<Rightarrow> fs \<Rightarrow> path \<Rightarrow> path \<Rightarrow> path option" where
  "walk k fs cur [] = Some cur"
| "walk k fs cur (c # cs) =
     (case lookup fs (cur @ [c]) of
        None \<Rightarrow> None
      | Some Dir \<Rightarrow> walk k fs (cur @ [c]) cs
      | Some (File m b) \<Rightarrow> (if cs = [] then Some (cur @ [c]) else None)
      | Some (Symlink t) \<Rightarrow> (case k of 0 \<Rightarrow> None | Suc j \<Rightarrow> walk j fs [] (t @ cs)))"

definition realpath :: "fs \<Rightarrow> path \<Rightarrow> path option" where
  "realpath fs p = walk 40 fs [] p"

definition os_Stat :: "fs \<Rightarrow> path \<Rightarrow> node option" where
  "os_Stat fs p = (case realpath fs p of None \<Rightarrow> None | Some q \<Rightarrow> lookup fs q)"

definition os_Open :: "fs \<Rightarrow> path \<Rightarrow> node option" where
  "os_Open fs p = os_Stat fs p"

text \<open>\<^verbatim>\<open>FileInfo.Size()\<close> and \<^verbatim>\<open>FileInfo.Mode()\<close>. Directories are created with mode 0755
  throughout; their size is that of one block.\<close>

definition ModeDir :: FileMode where
  "ModeDir = push_bit 31 1"

fun info_Size :: "node \<Rightarrow> nat" where
  "info_Size (File m b) = length b"
| "info_Size Dir = 4096"
| "info_Size (Symlink t) = length t"

definition ModeSymlink :: FileMode where
  "ModeSymlink = push_bit 27 1"

definition ModePerm :: FileMode where
  "ModePerm = 0x1FF"

fun info_Mode :: "node \<Rightarrow> FileMode" where
  "info_Mode (File m b) = m AND ModePerm"
| "info_Mode Dir = ModeDir OR 0x1ED"
| "info_Mode (Symlink t) = ModeSymlink OR ModePerm"

text \<open>\<^verbatim>\<open>io.ReadFull(file, buf)\<close> with a buffer of \<open>n\<close> bytes: an error on a directory
  and on a file shorter than the buffer.\<close>

fun ReadFull :: "node \<Rightarrow> nat \<Rightarrow> byte list option" where
  "ReadFull (File m b) n = (if length b < n then None else Some (take n b))"
| "ReadFull Dir n = None"
| "ReadFull (Symlink t) n = None"

definition os_Symlink :: "path \<Rightarrow> path \<Rightarrow> fs \<Rightarrow> fs option" where
  "os_Symlink target link fs =
     (if link = [] \<or> lookup fs link \<noteq> None \<or> lookup fs (butlast link) \<noteq> Some Dir then None
      else Some (put link (Symlink target) fs))"

definition has_children :: "fs \<Rightarrow> path \<Rightarrow> bool" where
  "has_children fs d = (children fs d \<noteq> [])"

definition os_Remove :: "path \<Rightarrow> fs \<Rightarrow> fs option" where
  "os_Remove p fs =
     (case lookup fs p of
        None \<Rightarrow> None
      | Some Dir \<Rightarrow> (if p = [] \<or> has_children fs p then None else Some (del p fs))
      | Some n \<Rightarrow> Some (del p fs))"

text \<open>Moving a directory moves everything below it.\<close>

definition move_tree :: "path \<Rightarrow> path \<Rightarrow> fs \<Rightarrow> fs" where
  "move_tree old new fs =
     map (\<lambda>(p, n). (new @ drop (length old) p, n)) (filter (\<lambda>(p, n). prefix old p) fs)
     @ filter (\<lambda>(p, n). \<not> prefix old p \<and> p \<noteq> new) fs"

definition os_Rename :: "path \<Rightarrow> path \<Rightarrow> fs \<Rightarrow> fs option" where
  "os_Rename old new fs =
     (if old = [] \<or> new = [] then None
      else case lookup fs old of
        None \<Rightarrow> None
      | Some n \<Rightarrow>
          if lookup fs (butlast new) \<noteq> Some Dir then None
          else if old = new then Some fs
          else (case n of
              Dir \<Rightarrow>
                (if prefix old new then None
                 else case lookup fs new of
                     None \<Rightarrow> Some (move_tree old new fs)
                   | Some Dir \<Rightarrow> (if has_children fs new then None else Some (move_tree old new fs))
                   | Some other \<Rightarrow> None)
            | other \<Rightarrow>
                (case lookup fs new of
                   Some Dir \<Rightarrow> None
                 | any \<Rightarrow> Some (put new n (del old fs)))))"

text \<open>\<^verbatim>\<open>os.MkdirAll\<close>: every missing directory on the way is created; an entry on the
  way that is no directory is an error.\<close>

fun mkdirs :: "path \<Rightarrow> string list \<Rightarrow> fs \<Rightarrow> fs option" where
  "mkdirs cur [] fs = Some fs"
| "mkdirs cur (c # cs) fs =
     (case lookup fs (cur @ [c]) of
        None \<Rightarrow> mkdirs (cur @ [c]) cs (put (cur @ [c]) Dir fs)
      | Some Dir \<Rightarrow> mkdirs (cur @ [c]) cs fs
      | Some other \<Rightarrow> None)"

definition os_MkdirAll :: "path \<Rightarrow> fs \<Rightarrow> fs option" where
  "os_MkdirAll p fs = mkdirs [] p fs"

text \<open>\<^verbatim>\<open>os.ReadDir\<close>: the entries of a directory, sorted by name.\<close>

definition os_ReadDir :: "fs \<Rightarrow> path \<Rightarrow> (string \<times> node) list option" where
  "os_ReadDir fs d =
     (case lookup fs d of
        Some Dir \<Rightarrow> Some (List.map_filter (\<lambda>n. map_option (Pair n) (lookup fs (d @ [n]))) (children fs d))
      | _ \<Rightarrow> None)"

text \<open>\<^verbatim>\<open>os.Chmod\<close> changes the mode of the file a path resolves to.\<close>

definition os_Chmod :: "path \<Rightarrow> FileMode \<Rightarrow> fs \<Rightarrow> fs option" where
  "os_Chmod p m fs =
     (case realpath fs p of
        None \<Rightarrow> None
      | Some q \<Rightarrow>
          (case lookup fs q of
             Some (File m0 b) \<Rightarrow> Some (put q (File m b) fs)
           | Some Dir \<Rightarrow> Some fs
           | _ \<Rightarrow> None))"

section \<open>Verifying a binary\<close>

datatype verify_error =
  BinaryNotFound | BinaryEmpty | BinaryNotExecutable | OpenFailed | ReadHeaderFailed | NotELF

definition elf_magic :: "byte list" where
  "elf_magic = [0x7F, 0x45, 0x4C, 0x46]"

definition verifyBinary :: "fs \<Rightarrow> path \<Rightarrow> verify_error option" where
  "verifyBinary fs p =
     (case os_Stat fs p of
        None \<Rightarrow> Some BinaryNotFound
      | Some info \<Rightarrow>
          if info_Size info = 0 then Some BinaryEmpty
          else if info_Mode info AND 0x49 = 0 then Some BinaryNotExecutable
          else (case os_Open fs p of
              None \<Rightarrow> Some OpenFailed
            | Some file \<Rightarrow>
                (case ReadFull file 4 of
                   None \<Rightarrow> Some ReadHeaderFailed
                 | Some magic \<Rightarrow>
                     if magic ! 0 \<noteq> 0x7F \<or> magic ! 1 \<noteq> 0x45 \<or> magic ! 2 \<noteq> 0x4C \<or> magic ! 3 \<noteq> 0x46
                     then Some NotELF else None)))"

section \<open>Time stamps and link names\<close>

text \<open>
  \<^verbatim>\<open>time.Time\<close>, \<^verbatim>\<open>Format\<close> and \<^verbatim>\<open>Parse\<close> belong to Go's standard library. They are
  modelled for the one layout the supervisor uses, \<^verbatim>\<open>"20060102-150405"\<close>: a time is its
  civil reading (years from 0 on), \<^verbatim>\<open>Format\<close> pads the year to four digits and every
  other field to two, and \<^verbatim>\<open>Parse\<close> reads four year digits, two-digit month, day, minute
  and second, an hour of one or two digits, an optional fraction of a second after the
  seconds, checks every range, and rejects text that is left over.
\<close>

record Time =
  year :: nat
  month :: nat
  day :: nat
  hour :: nat
  minute :: nat
  second :: nat
  nsec :: nat

definition zero_Time :: Time where
  "zero_Time = \<lparr>year = 1, month = 1, day = 1, hour = 0, minute = 0, second = 0, nsec = 0\<rparr>"

definition digit_char :: "nat \<Rightarrow> char" where
  "digit_char d = char_of (48 + d)"

definition digit_val :: "char \<Rightarrow> nat" where
  "digit_val c = of_char c - 48"

definition is_digit :: "char \<Rightarrow> bool" where
  "is_digit c = (48 \<le> (of_char c :: nat) \<and> (of_char c :: nat) \<le> 57)"

text \<open>Decimal digits of a number (\<^verbatim>\<open>%d\<close>), and \<^verbatim>\<open>appendInt\<close> with its minimal width.\<close>

fun dec :: "nat \<Rightarrow> string" where
  "dec n = (if n < 10 then [digit_char n] else dec (n div 10) @ [digit_char (n mod 10)])"

declare dec.simps [simp del]

definition appendInt :: "nat \<Rightarrow> nat \<Rightarrow> string" where
  "appendInt x width = replicate (width - length (dec x)) (CHR ''0'') @ dec x"

definition time_Format :: "Time \<Rightarrow> string" where
  "time_Format t =
     appendInt (year t) 4 @ appendInt (month t) 2 @ appendInt (day t) 2 @ ''-''
     @ appendInt (hour t) 2 @ appendInt (minute t) 2 @ appendInt (second t) 2"

definition isDigit :: "string \<Rightarrow> nat \<Rightarrow> bool" where
  "isDigit s i = (i < length s \<and> is_digit (s ! i))"

definition atoi :: "string \<Rightarrow> nat option" where
  "atoi s = (if s \<noteq> [] \<and> list_all is_digit s
             then Some (foldl (\<lambda>a c. 10 * a + digit_val c) 0 s) else None)"

definition getnum :: "string \<Rightarrow> bool \<Rightarrow> (nat \<times> string) option" where
  "getnum s fixed =
     (if \<not> isDigit s 0 then None
      else if \<not> isDigit s 1 then (if fixed then None else Some (digit_val (s ! 0), drop 1 s))
      else Some (digit_val (s ! 0) * 10 + digit_val (s ! 1), drop 2 s))"

definition isLeap :: "nat \<Rightarrow> bool" where
  "isLeap y = (y mod 4 = 0 \<and> (y mod 100 \<noteq> 0 \<or> y mod 400 = 0))"

definition daysIn :: "nat \<Rightarrow> nat \<Rightarrow> nat" where
  "daysIn m y =
     (if m = 2 then (if isLeap y then 29 else 28)
      else if m = 4 \<or> m = 6 \<or> m = 9 \<or> m = 11 then 30 else 31)"

definition commaOrPeriod :: "char \<Rightarrow> bool" where
  "commaOrPeriod c = (c = CHR ''.'' \<or> c = CHR '','')"

text \<open>The fraction of a second that \<^verbatim>\<open>Parse\<close> accepts after the seconds although the
  layout has none: a comma or period and digits, of which nine count.\<close>

definition parseFraction :: "string \<Rightarrow> nat \<times> string" where
  "parseFraction v =
     (if 2 \<le> length v \<and> commaOrPeriod (v ! 0) \<and> isDigit v 1
      then (let ds = takeWhile is_digit (drop 1 v);
                used = take 9 ds
            in (foldl (\<lambda>a c. 10 * a + digit_val c) 0 used * 10 ^ (9 - length used),
                drop (1 + length ds) v))
      else (0, v))"

definition time_Parse :: "string \<Rightarrow> Time option" where
  "time_Parse v =
     (if length v < 4 \<or> \<not> isDigit v 0 then None
      else case atoi (take 4 v) of
        None \<Rightarrow> None
      | Some y \<Rightarrow>
      (case getnum (drop 4 v) True of
        None \<Rightarrow> None
      | Some (mo, v1) \<Rightarrow>
      if mo \<le> 0 \<or> 12 < mo then None
      else (case getnum v1 True of
        None \<Rightarrow> None
      | Some (d, v2) \<Rightarrow>
      if take 1 v2 \<noteq> ''-'' then None
      else (case getnum (drop 1 v2) False of
        None \<Rightarrow> None
      | Some (h, v3) \<Rightarrow>
      if 24 \<le> h then None
      else (case getnum v3 True of
        None \<Rightarrow> None
      | Some (mi, v4) \<Rightarrow>
      if 60 \<le> mi then None
      else (case getnum v4 True of
        None \<Rightarrow> None
      | Some (s, v5) \<Rightarrow>
      if 60 \<le> s then None
      else (case parseFraction v5 of (ns, v6) \<Rightarrow>
      if v6 \<noteq> [] then None
      else if d < 1 \<or> daysIn mo y < d then None
      else Some \<lparr>year = y, month = mo, day = d, hour = h, minute = mi, second = s,
                 nsec = ns\<rparr>)))))))"

text \<open>\<^verbatim>\<open>t.After(u)\<close> on times that \<^verbatim>\<open>Parse\<close> returned (all in UTC).\<close>

definition time_key :: "Time \<Rightarrow> nat list" where
  "time_key t = [year t, month t, day t, hour t, minute t, second t, nsec t]"

definition After :: "Time \<Rightarrow> Time \<Rightarrow> bool" where
  "After t u = (time_key u < time_key t)"

definition parsePreviousTimestamp :: "string \<Rightarrow> Time" where
  "parsePreviousTimestamp name =
     (if length name > 9 \<and> take 9 name = ''previous-''
      then (case time_Parse (drop 9 name) of Some t \<Rightarrow> t | None \<Rightarrow> zero_Time)
      else zero_Time)"

text \<open>A civil time whose year has four digits, as \<^verbatim>\<open>time.Now()\<close> gives.\<close>

definition valid_Time :: "Time \<Rightarrow> bool" where
  "valid_Time t =
     (year t < 10000 \<and> 1 \<le> month t \<and> month t \<le> 12 \<and> 1 \<le> day t \<and> day t \<le> daysIn (month t) (year t)
      \<and> hour t < 24 \<and> minute t < 60 \<and> second t < 60)"

definition backupName :: "Time \<Rightarrow> string" where
  "backupName now = ''previous-'' @ time_Format now"

section \<open>Versions in the registry\<close>

text \<open>
  \<^verbatim>\<open>semver.NewVersion\<close> and \<^verbatim>\<open>Version.GreaterThan\<close> come from the library
  Masterminds/semver, outside the repository: the functions below take them as a
  parameter, and everything proved of them holds for whatever the library parses.
\<close>

record 'v semver =
  NewVersion :: "string \<Rightarrow> 'v option"
  GreaterThan :: "'v \<Rightarrow> 'v \<Rightarrow> bool"

datatype migrate_error = CreateLegacyDirFailed | MoveLegacyFailed

datatype bin_error =
  CurrentBinaryMissing | MigrateFailed migrate_error | CreateTempBinFailed | SwapBinFailed

datatype download_error = CreateDestDirFailed | CopyFailed | ReadDestDirFailed | ChmodFailed

datatype error =
    ListTagsFailed
  | NoVersionsFound
  | CreateVersionsDirFailed
  | CreateVersionDirFailed
  | DownloadFailed download_error
  | VerificationFailed verify_error
  | ReadCurrentFailed
  | CreateBackupFailed
  | CreateTempLinkFailed
  | SwapFailed
  | UpdateBinFailed bin_error
  | SignalFailed
  | FindBackupsFailed
  | NoBackups
  | ReadBackupFailed
  | BackupVerificationFailed verify_error

text \<open>\<^verbatim>\<open>Client.Versions\<close>: the loop over the tags appends every tag that parses. The
  registry's answer is \<open>None\<close> when listing the tags failed.\<close>

fun Versions_loop :: "'v semver \<Rightarrow> string list \<Rightarrow> 'v list \<Rightarrow> 'v list" where
  "Versions_loop lib [] versions = versions"
| "Versions_loop lib (tag # tags) versions =
     (case NewVersion lib tag of
        None \<Rightarrow> Versions_loop lib tags versions
      | Some v \<Rightarrow> Versions_loop lib tags (versions @ [v]))"

definition Versions :: "'v semver \<Rightarrow> string list option \<Rightarrow> error + 'v list" where
  "Versions lib registry =
     (case registry of
        None \<Rightarrow> Inl ListTagsFailed
      | Some tags \<Rightarrow> Inr (Versions_loop lib tags []))"

text \<open>\<^verbatim>\<open>Supervisor.CheckForUpdate\<close> returns \<^verbatim>\<open>(update, allVersions, err)\<close>.\<close>

definition CheckForUpdate ::
  "'v semver \<Rightarrow> 'v \<Rightarrow> string list option \<Rightarrow> 'v option \<times> 'v list \<times> error option" where
  "CheckForUpdate lib currentVersion registry =
     (case Versions lib registry of
        Inl err \<Rightarrow> (None, [], Some err)
      | Inr allVersions \<Rightarrow>
          if length allVersions = 0 then (None, allVersions, Some NoVersionsFound)
          else (let latest = allVersions ! (length allVersions - 1)
                in if GreaterThan lib latest currentVersion then (Some latest, allVersions, None)
                   else (None, allVersions, None)))"

text \<open>
  A model of the library on the strict form \<^verbatim>\<open>MAJOR.MINOR.PATCH\<close> with an optional
  \<^verbatim>\<open>-PRERELEASE\<close> (numbers without leading zeros): it serves to evaluate the functions
  on concrete tags. Precedence compares major, minor and patch; a version with a
  prerelease precedes the same version without one.
\<close>

datatype version = SemVer (major: nat) (minor: nat) (patch: nat) (pre: string)

fun split_dots :: "string \<Rightarrow> string list" where
  "split_dots [] = [[]]"
| "split_dots (c # cs) =
     (if c = CHR ''.'' then [] # split_dots cs
      else (case split_dots cs of [] \<Rightarrow> [[c]] | p # ps \<Rightarrow> (c # p) # ps))"

definition canonical_number :: "string \<Rightarrow> nat option" where
  "canonical_number p = (case atoi p of None \<Rightarrow> None | Some n \<Rightarrow> if dec n = p then Some n else None)"

definition prerelease_char :: "char \<Rightarrow> bool" where
  "prerelease_char c =
     (is_digit c \<or> c = CHR ''-'' \<or> c = CHR ''.''
      \<or> (65 \<le> (of_char c :: nat) \<and> (of_char c :: nat) \<le> 90)
      \<or> (97 \<le> (of_char c :: nat) \<and> (of_char c :: nat) \<le> 122))"

definition parse_version :: "string \<Rightarrow> version option" where
  "parse_version s =
     (let core = takeWhile (\<lambda>c. c \<noteq> CHR ''-'') s;
          rest = drop (length core) s
      in if rest \<noteq> [] \<and> (length rest < 2 \<or> \<not> list_all prerelease_char (drop 1 rest)) then None
         else (case map canonical_number (split_dots core) of
             [Some a, Some b, Some c] \<Rightarrow> Some (SemVer a b c (drop 1 rest))
           | _ \<Rightarrow> None))"

definition version_greater :: "version \<Rightarrow> version \<Rightarrow> bool" where
  "version_greater a b =
     ([major b, minor b, patch b] < [major a, minor a, patch a]
      \<or> ([major b, minor b, patch b] = [major a, minor a, patch a]
          \<and> ((pre a = [] \<and> pre b \<noteq> []) \<or> (pre a \<noteq> [] \<and> pre b \<noteq> [] \<and> pre b < pre a))))"

definition semver_model :: "version semver" where
  "semver_model = \<lparr>NewVersion = parse_version, GreaterThan = version_greater\<rparr>"

section \<open>The supervisor\<close>

text \<open>
  \<^verbatim>\<open>config.Config\<close> and the two paths \<^verbatim>\<open>New\<close> derives from it: \<^verbatim>\<open>dataDir\<close>, where
  versions and links are stored, and \<^verbatim>\<open>binPath\<close>, the path users invoke.
\<close>

record Config =
  BinaryName :: string
  BinaryDir :: path
  VersionsDir :: path

definition dataDir :: "Config \<Rightarrow> path" where
  "dataDir cfg = VersionsDir cfg @ [BinaryName cfg]"

definition binPath :: "Config \<Rightarrow> path" where
  "binPath cfg = BinaryDir cfg @ [BinaryName cfg]"

definition currentLink :: "Config \<Rightarrow> path" where
  "currentLink cfg = dataDir cfg @ [''current'']"

text \<open>
  What a call reads from outside the file system: the clock at each \<^verbatim>\<open>time.Now()\<close>, the
  artifact the registry holds for a tag, and whether the signal to the own process is
  delivered.
\<close>

record Env =
  artifact :: "string \<Rightarrow> (string \<times> byte list) list option"
  now_backup :: Time
  now_temp :: nat
  now_legacy :: Time
  now_bin_temp :: nat
  kill_ok :: bool

definition backupLink :: "Config \<Rightarrow> Time \<Rightarrow> path" where
  "backupLink cfg now = dataDir cfg @ [backupName now]"

definition tempLink :: "Config \<Rightarrow> nat \<Rightarrow> path" where
  "tempLink cfg nonce = dataDir cfg @ [''current.tmp.'' @ dec nonce]"

definition tempBinLink :: "Config \<Rightarrow> nat \<Rightarrow> path" where
  "tempBinLink cfg nonce = BinaryDir cfg @ [BinaryName cfg @ ''.tmp.'' @ dec nonce]"

text \<open>A call whose error the program drops: \<^verbatim>\<open>os.Remove(tempLink)\<close> after a failed
  rename, and the removals that only log a warning.\<close>

definition remove_quiet :: "path \<Rightarrow> fs \<Rightarrow> fs" where
  "remove_quiet p fs = (case os_Remove p fs of None \<Rightarrow> fs | Some fs' \<Rightarrow> fs')"

subsection \<open>Download\<close>

text \<open>
  Modelled from the spec: \<^verbatim>\<open>oras.Copy\<close> into a file store, which is not part of the
  repository. The Fetcher's download writes the files of the artifact as regular files
  directly inside the destination directory, or fails; a failure may leave the files
  written before it. A tag the registry does not hold fails at once.
\<close>

fun write_files :: "path \<Rightarrow> (string \<times> byte list) list \<Rightarrow> fs \<Rightarrow> bool \<times> fs" where
  "write_files d [] fs = (True, fs)"
| "write_files d ((name, b) # rest) fs =
     (case lookup fs (d @ [name]) of
        Some Dir \<Rightarrow> (False, fs)
      | Some (Symlink t) \<Rightarrow> (False, fs)
      | other \<Rightarrow> write_files d rest (put (d @ [name]) (File 0x1A4 b) fs))"

definition oras_Copy :: "Env \<Rightarrow> string \<Rightarrow> path \<Rightarrow> fs \<Rightarrow> bool \<times> fs" where
  "oras_Copy env version destDir fs =
     (case artifact env version of
        None \<Rightarrow> (False, fs)
      | Some files \<Rightarrow> write_files destDir files fs)"

text \<open>The loop of \<^verbatim>\<open>Client.DownloadUpdate\<close> over the entries of the destination.\<close>

fun chmod_entries ::
  "Config \<Rightarrow> path \<Rightarrow> (string \<times> node) list \<Rightarrow> fs \<Rightarrow> download_error option \<times> fs" where
  "chmod_entries cfg destDir [] fs = (None, fs)"
| "chmod_entries cfg destDir ((name, n) # entries) fs =
     (if n = Dir then chmod_entries cfg destDir entries fs
      else if name \<noteq> BinaryName cfg then chmod_entries cfg destDir entries fs
      else (case os_Chmod (destDir @ [name]) 0x1ED fs of
          None \<Rightarrow> (Some ChmodFailed, fs)
        | Some fs' \<Rightarrow> chmod_entries cfg destDir entries fs'))"

definition DownloadUpdate ::
  "Config \<Rightarrow> Env \<Rightarrow> string \<Rightarrow> path \<Rightarrow> fs \<Rightarrow> download_error option \<times> fs" where
  "DownloadUpdate cfg env version destDir fs =
     (case os_MkdirAll destDir fs of
        None \<Rightarrow> (Some CreateDestDirFailed, fs)
      | Some fs1 \<Rightarrow>
          (case oras_Copy env version destDir fs1 of
             (False, fs2) \<Rightarrow> (Some CopyFailed, fs2)
           | (True, fs2) \<Rightarrow>
               (case os_ReadDir fs2 destDir of
                  None \<Rightarrow> (Some ReadDestDirFailed, fs2)
                | Some entries \<Rightarrow> chmod_entries cfg destDir entries fs2)))"

subsection \<open>Backup links\<close>

definition is_backup_name :: "string \<Rightarrow> bool" where
  "is_backup_name name = (length name > 9 \<and> take 9 name = ''previous-'')"

text \<open>\<^verbatim>\<open>getBackupSymlinks\<close>: the loop over the directory entries, then \<^verbatim>\<open>sort.Strings\<close>.\<close>

fun backups_loop :: "Config \<Rightarrow> (string \<times> node) list \<Rightarrow> path list \<Rightarrow> path list" where
  "backups_loop cfg [] backups = backups"
| "backups_loop cfg ((name, n) # entries) backups =
     (if info_Mode n AND ModeSymlink \<noteq> 0
      then (if length name > 9 \<and> take 9 name = ''previous-''
            then backups_loop cfg entries (backups @ [dataDir cfg @ [name]])
            else backups_loop cfg entries backups)
      else backups_loop cfg entries backups)"

definition getBackupSymlinks :: "Config \<Rightarrow> fs \<Rightarrow> path list option" where
  "getBackupSymlinks cfg fs =
     (case os_ReadDir fs (dataDir cfg) of
        None \<Rightarrow> None
      | Some entries \<Rightarrow> Some (sort (backups_loop cfg entries [])))"

text \<open>\<^verbatim>\<open>cleanupOldBackups\<close> returns an error only when the directory cannot be read;
  a removal that fails is logged and the loop goes on.\<close>

definition cleanupOldBackups :: "Config \<Rightarrow> nat \<Rightarrow> fs \<Rightarrow> error option \<times> fs" where
  "cleanupOldBackups cfg keep fs =
     (case getBackupSymlinks cfg fs of
        None \<Rightarrow> (Some FindBackupsFailed, fs)
      | Some backups \<Rightarrow>
          if length backups > keep
          then (let toRemove = take (length backups - keep) backups
                in (None, fold remove_quiet toRemove fs))
          else (None, fs))"

subsection \<open>The link in the bin directory\<close>

definition migrateLegacyBinary :: "Config \<Rightarrow> Env \<Rightarrow> fs \<Rightarrow> migrate_error option \<times> fs" where
  "migrateLegacyBinary cfg env fs =
     (let legacyVersionDir = dataDir cfg @ [''versions'', ''legacy'']
      in case os_MkdirAll legacyVersionDir fs of
           None \<Rightarrow> (Some CreateLegacyDirFailed, fs)
         | Some fs1 \<Rightarrow>
             (let legacyBinaryPath = legacyVersionDir @ [BinaryName cfg]
              in case os_Rename (binPath cfg) legacyBinaryPath fs1 of
                   None \<Rightarrow> (Some MoveLegacyFailed, fs1)
                 | Some fs2 \<Rightarrow>
                     (case os_Symlink legacyVersionDir (backupLink cfg (now_legacy env)) fs2 of
                        None \<Rightarrow> (None, fs2)
                      | Some fs3 \<Rightarrow> (None, fs3))))"

definition updateBinSymlink :: "Config \<Rightarrow> Env \<Rightarrow> fs \<Rightarrow> bin_error option \<times> fs" where
  "updateBinSymlink cfg env fs =
     (let currentBinary = dataDir cfg @ [''current'', BinaryName cfg]
      in case os_Stat fs currentBinary of
           None \<Rightarrow> (Some CurrentBinaryMissing, fs)
         | Some cur \<Rightarrow>
             (case (case os_Lstat fs (binPath cfg) of
                      None \<Rightarrow> (None, fs)
                    | Some info \<Rightarrow>
                        if info_Mode info AND ModeSymlink = 0 then migrateLegacyBinary cfg env fs
                        else (None, fs)) of
                (Some err, fs1) \<Rightarrow> (Some (MigrateFailed err), fs1)
              | (None, fs1) \<Rightarrow>
                  (case os_Symlink currentBinary (tempBinLink cfg (now_bin_temp env)) fs1 of
                     None \<Rightarrow> (Some CreateTempBinFailed, fs1)
                   | Some fs2 \<Rightarrow>
                       (case os_Rename (tempBinLink cfg (now_bin_temp env)) (binPath cfg) fs2 of
                          None \<Rightarrow>
                            (Some SwapBinFailed,
                             remove_quiet (tempBinLink cfg (now_bin_temp env)) fs2)
                        | Some fs3 \<Rightarrow> (None, fs3)))))"

subsection \<open>Update\<close>

text \<open>
  \<^verbatim>\<open>Supervisor.Update\<close> in the order of the source. Its steps are named after the states
  of the installer: \<open>stage\<close> creates the directories, downloads and verifies;
  \<open>backupCurrent\<close> is the block that backs up an existing \<^verbatim>\<open>current\<close>; \<open>swapCurrent\<close>
  creates the temporary link and renames it over \<^verbatim>\<open>current\<close>; \<open>commit\<close> updates the
  bin link, rotates the backups and signals the process. Every function returns the
  error, if any, and the file system it leaves.
\<close>

definition stage :: "Config \<Rightarrow> Env \<Rightarrow> string \<Rightarrow> fs \<Rightarrow> error option \<times> fs" where
  "stage cfg env version fs =
     (let versionsDir = dataDir cfg @ [''versions'']
      in case os_MkdirAll versionsDir fs of
           None \<Rightarrow> (Some CreateVersionsDirFailed, fs)
         | Some fs1 \<Rightarrow>
             (let versionDir = versionsDir @ [version]
              in case os_MkdirAll versionDir fs1 of
                   None \<Rightarrow> (Some CreateVersionDirFailed, fs1)
                 | Some fs2 \<Rightarrow>
                     (case DownloadUpdate cfg env version versionDir fs2 of
                        (Some err, fs3) \<Rightarrow> (Some (DownloadFailed err), fs3)
                      | (None, fs3) \<Rightarrow>
                          (case verifyBinary fs3 (versionDir @ [BinaryName cfg]) of
                             Some err \<Rightarrow> (Some (VerificationFailed err), fs3)
                           | None \<Rightarrow> (None, fs3)))))"

definition backupCurrent :: "Config \<Rightarrow> Env \<Rightarrow> fs \<Rightarrow> error option \<times> fs" where
  "backupCurrent cfg env fs =
     (case os_Lstat fs (currentLink cfg) of
        None \<Rightarrow> (None, fs)
      | Some info \<Rightarrow>
          (case os_Readlink fs (currentLink cfg) of
             None \<Rightarrow> (Some ReadCurrentFailed, fs)
           | Some target \<Rightarrow>
               (case os_Symlink target (backupLink cfg (now_backup env)) fs of
                  None \<Rightarrow> (Some CreateBackupFailed, fs)
                | Some fs' \<Rightarrow> (None, fs'))))"

definition swapCurrent :: "Config \<Rightarrow> Env \<Rightarrow> path \<Rightarrow> fs \<Rightarrow> error option \<times> fs" where
  "swapCurrent cfg env target fs =
     (case os_Symlink target (tempLink cfg (now_temp env)) fs of
        None \<Rightarrow> (Some CreateTempLinkFailed, fs)
      | Some fs1 \<Rightarrow>
          (case os_Rename (tempLink cfg (now_temp env)) (currentLink cfg) fs1 of
             None \<Rightarrow> (Some SwapFailed, remove_quiet (tempLink cfg (now_temp env)) fs1)
           | Some fs2 \<Rightarrow> (None, fs2)))"

definition commit :: "Config \<Rightarrow> Env \<Rightarrow> fs \<Rightarrow> error option \<times> fs" where
  "commit cfg env fs =
     (case updateBinSymlink cfg env fs of
        (Some err, fs1) \<Rightarrow> (Some (UpdateBinFailed err), fs1)
      | (None, fs1) \<Rightarrow>
          (case cleanupOldBackups cfg 3 fs1 of
             (warning, fs2) \<Rightarrow> if kill_ok env then (None, fs2) else (Some SignalFailed, fs2)))"

definition Update :: "Config \<Rightarrow> Env \<Rightarrow> string \<Rightarrow> fs \<Rightarrow> error option \<times> fs" where
  "Update cfg env version fs =
     (case stage cfg env version fs of
        (Some err, fs1) \<Rightarrow> (Some err, fs1)
      | (None, fs1) \<Rightarrow>
          (case backupCurrent cfg env fs1 of
             (Some err, fs2) \<Rightarrow> (Some err, fs2)
           | (None, fs2) \<Rightarrow>
               (case swapCurrent cfg env (dataDir cfg @ [''versions'', version]) fs2 of
                  (Some err, fs3) \<Rightarrow> (Some err, fs3)
                | (None, fs3) \<Rightarrow> commit cfg env fs3)))"

subsection \<open>Rollback\<close>

definition Rollback :: "Config \<Rightarrow> Env \<Rightarrow> fs \<Rightarrow> error option \<times> fs" where
  "Rollback cfg env fs =
     (case getBackupSymlinks cfg fs of
        None \<Rightarrow> (Some FindBackupsFailed, fs)
      | Some backups \<Rightarrow>
          if length backups = 0 then (Some NoBackups, fs)
          else (let latestBackup = backups ! (length backups - 1)
                in case os_Readlink fs latestBackup of
                     None \<Rightarrow> (Some ReadBackupFailed, fs)
                   | Some target \<Rightarrow>
                       (case verifyBinary fs (target @ [BinaryName cfg]) of
                          Some err \<Rightarrow> (Some (BackupVerificationFailed err), fs)
                        | None \<Rightarrow>
                            (case swapCurrent cfg env target fs of
                               (Some err, fs1) \<Rightarrow> (Some err, fs1)
                             | (None, fs1) \<Rightarrow>
                                 (case updateBinSymlink cfg env fs1 of
                                    (Some err, fs2) \<Rightarrow> (Some (UpdateBinFailed err), fs2)
                                  | (None, fs2) \<Rightarrow>
                                      (let fs3 = remove_quiet latestBackup fs2
                                       in if kill_ok env then (None, fs3)
                                          else (Some SignalFailed, fs3)))))))"

subsection \<open>History\<close>

record 'v HistoricVersion =
  Version :: 'v
  LastInstalled :: Time

text \<open>\<^verbatim>\<open>filepath.Base\<close>.\<close>

definition Base :: "path \<Rightarrow> string" where
  "Base p = (if p = [] then ''/'' else last p)"

text \<open>The loop of \<^verbatim>\<open>History\<close>. \<^verbatim>\<open>semver.MustParse\<close> panics when the string does not
  parse: the loop then returns \<open>None\<close>.\<close>

fun history_loop ::
  "'v semver \<Rightarrow> fs \<Rightarrow> path list \<Rightarrow> 'v HistoricVersion list \<Rightarrow> 'v HistoricVersion list option"
  where
  "history_loop lib fs [] history = Some history"
| "history_loop lib fs (backup # backups) history =
     (case os_Readlink fs backup of
        None \<Rightarrow> history_loop lib fs backups history
      | Some target \<Rightarrow>
          (let versionName = Base target
           in case NewVersion lib versionName of
                None \<Rightarrow>
                  if versionName = ''legacy''
                  then (case NewVersion lib ''0.0.0-legacy'' of
                      None \<Rightarrow> None
                    | Some sentinel \<Rightarrow>
                        history_loop lib fs backups
                          (history @ [\<lparr>Version = sentinel,
                             LastInstalled = parsePreviousTimestamp (Base backup)\<rparr>]))
                  else history_loop lib fs backups history
              | Some version \<Rightarrow>
                  history_loop lib fs backups
                    (history @ [\<lparr>Version = version,
                       LastInstalled = parsePreviousTimestamp (Base backup)\<rparr>])))"

text \<open>\<^verbatim>\<open>sort.Slice\<close> with a \<open>less\<close> function, as an insertion sort (the order of
  elements that \<open>less\<close> does not separate is not fixed by Go).\<close>

fun insert_less :: "('a \<Rightarrow> 'a \<Rightarrow> bool) \<Rightarrow> 'a \<Rightarrow> 'a list \<Rightarrow> 'a list" where
  "insert_less lt x [] = [x]"
| "insert_less lt x (y # ys) =
     (if lt y x then y # insert_less lt x ys else x # y # ys)"

definition sort_Slice :: "('a \<Rightarrow> 'a \<Rightarrow> bool) \<Rightarrow> 'a list \<Rightarrow> 'a list" where
  "sort_Slice lt xs = foldr (insert_less lt) xs []"

definition History :: "'v semver \<Rightarrow> Config \<Rightarrow> fs \<Rightarrow> 'v HistoricVersion list option" where
  "History lib cfg fs =
     (case getBackupSymlinks cfg fs of
        None \<Rightarrow> Some []
      | Some backups \<Rightarrow>
          (case history_loop lib fs backups [] of
             None \<Rightarrow> None
           | Some history \<Rightarrow>
               Some (sort_Slice (\<lambda>a b. After (LastInstalled a) (LastInstalled b)) history)))"

definition backup_set :: "Config \<Rightarrow> fs \<Rightarrow> path set" where
  "backup_set cfg fs =
     {p. \<exists>name. p = dataDir cfg @ [name] \<and> is_backup_name name \<and> is_symlink (lookup fs p)}"

definition grow :: "node option \<Rightarrow> node option \<Rightarrow> bool" where
  "grow a b =
     (b = a \<or> (a = None \<and> b = Some Dir)
      \<or> ((a = None \<or> (\<exists>m c. a = Some (File m c))) \<and> (\<exists>m c. b = Some (File m c))))"

definition grows :: "fs \<Rightarrow> fs \<Rightarrow> bool" where
  "grows fs fs' = (\<forall>q. grow (lookup fs q) (lookup fs' q))"

fun before_backup :: "error \<Rightarrow> bool" where
  "before_backup CreateVersionsDirFailed = True"
| "before_backup CreateVersionDirFailed = True"
| "before_backup (DownloadFailed e) = True"
| "before_backup (VerificationFailed e) = True"
| "before_backup ReadCurrentFailed = True"
| "before_backup CreateBackupFailed = True"
| "before_backup e = False"

fun before_swap :: "error \<Rightarrow> bool" where
  "before_swap CreateTempLinkFailed = True"
| "before_swap SwapFailed = True"
| "before_swap e = before_backup e"

definition stage_error :: "error \<Rightarrow> bool" where
  "stage_error e = (e = CreateVersionsDirFailed \<or> e = CreateVersionDirFailed
     \<or> (\<exists>d. e = DownloadFailed d) \<or> (\<exists>v. e = VerificationFailed v))"

definition failure_post :: "Config \<Rightarrow> fs \<Rightarrow> fs \<Rightarrow> bool" where
  "failure_post cfg fs fs' =
     (os_Readlink fs' (currentLink cfg) = os_Readlink fs (currentLink cfg)
      \<and> backup_set cfg fs \<subseteq> backup_set cfg fs'
      \<and> (\<forall>b \<in> backup_set cfg fs. lookup fs' b = lookup fs b))"

lemma lookup_put:
  "lookup (put p n fs) q = (if q = [] then Some Dir else if q = p then Some n else lookup fs q)"
  by (simp add: lookup_def put_def update_conv')

lemma lookup_del:
  "lookup (del p fs) q = (if q = [] then Some Dir else if q = p then None else lookup fs q)"
  by (simp add: lookup_def del_def delete_conv')

section \<open>Time stamps\<close>

lemma digit_char_props: "d < 10 \<Longrightarrow> is_digit (digit_char d) \<and> digit_val (digit_char d) = d"
  unfolding is_digit_def digit_char_def digit_val_def
  by (simp add: of_char_of)

lemma digit_char_0: "digit_char 0 = CHR ''0''"
  by code_simp

lemma dec_lt10: "n < 10 \<Longrightarrow> dec n = [digit_char n]"
  by (simp add: dec.simps)

lemma dec_lt100:
  "10 \<le> n \<Longrightarrow> n < 100 \<Longrightarrow> dec n = [digit_char (n div 10), digit_char (n mod 10)]"
  by (subst dec.simps) (simp add: dec_lt10)

lemma dec_lt1000:
  "100 \<le> n \<Longrightarrow> n < 1000 \<Longrightarrow>
   dec n = [digit_char (n div 100), digit_char (n div 10 mod 10), digit_char (n mod 10)]"
  by (subst dec.simps) (simp add: dec_lt100 div_mult2_eq[symmetric])

lemma dec_lt10000:
  "1000 \<le> n \<Longrightarrow> n < 10000 \<Longrightarrow>
   dec n = [digit_char (n div 1000), digit_char (n div 100 mod 10),
            digit_char (n div 10 mod 10), digit_char (n mod 10)]"
  by (subst dec.simps) (simp add: dec_lt1000 div_mult2_eq[symmetric])

lemma replicate_small:
  "replicate 1 x = [x]" "replicate 2 x = [x, x]" "replicate 3 x = [x, x, x]"
  by (simp_all add: numeral_2_eq_2 numeral_3_eq_3)

lemma appendInt2:
  "n < 100 \<Longrightarrow> appendInt n 2 = [digit_char (n div 10), digit_char (n mod 10)]"
  by (cases "n < 10") (simp_all add: appendInt_def dec_lt10 dec_lt100 digit_char_0)

lemma appendInt4:
  "n < 10000 \<Longrightarrow> appendInt n 4 =
     [digit_char (n div 1000), digit_char (n div 100 mod 10),
      digit_char (n div 10 mod 10), digit_char (n mod 10)]"
  by (cases "n < 10"; cases "n < 100"; cases "n < 1000")
     (simp_all add: appendInt_def dec_lt10 dec_lt100 dec_lt1000 dec_lt10000 replicate_small
        digit_char_0)

lemma getnum_fmt:
  "a < 10 \<Longrightarrow> b < 10 \<Longrightarrow>
   getnum (digit_char a # digit_char b # rest) fx = Some (a * 10 + b, rest)"
  by (simp add: getnum_def isDigit_def digit_char_props)

lemma atoi4:
  "a < 10 \<Longrightarrow> b < 10 \<Longrightarrow> c < 10 \<Longrightarrow> d < 10 \<Longrightarrow>
   atoi [digit_char a, digit_char b, digit_char c, digit_char d]
     = Some (a * 1000 + b * 100 + c * 10 + d)"
  by (simp add: atoi_def digit_char_props)

lemma parseFraction_Nil: "parseFraction [] = (0, [])"
  by (simp add: parseFraction_def)

lemma time_Parse_digits:
  assumes d: "y3 < 10" "y2 < 10" "y1 < 10" "y0 < 10" "m1 < 10" "m0 < 10" "d1 < 10" "d0 < 10"
      "h1 < 10" "h0 < 10" "i1 < 10" "i0 < 10" "s1 < 10" "s0 < 10"
    and r: "1 \<le> m1 * 10 + m0" "m1 * 10 + m0 \<le> 12" "1 \<le> d1 * 10 + d0"
      "d1 * 10 + d0 \<le> daysIn (m1 * 10 + m0) (y3 * 1000 + y2 * 100 + y1 * 10 + y0)"
      "h1 * 10 + h0 < 24" "i1 * 10 + i0 < 60" "s1 * 10 + s0 < 60"
  shows "time_Parse
      [digit_char y3, digit_char y2, digit_char y1, digit_char y0, digit_char m1, digit_char m0,
       digit_char d1, digit_char d0, CHR ''-'', digit_char h1, digit_char h0, digit_char i1,
       digit_char i0, digit_char s1, digit_char s0]
    = Some \<lparr>year = y3 * 1000 + y2 * 100 + y1 * 10 + y0, month = m1 * 10 + m0,
        day = d1 * 10 + d0, hour = h1 * 10 + h0, minute = i1 * 10 + i0, second = s1 * 10 + s0,
        nsec = 0\<rparr>"
proof -
  have g: "\<not> (m1 * 10 + m0 \<le> 0 \<or> 12 < m1 * 10 + m0)" "\<not> 24 \<le> h1 * 10 + h0"
      "\<not> 60 \<le> i1 * 10 + i0" "\<not> 60 \<le> s1 * 10 + s0"
      "\<not> (d1 * 10 + d0 < 1
          \<or> daysIn (m1 * 10 + m0) (y3 * 1000 + y2 * 100 + y1 * 10 + y0) < d1 * 10 + d0)"
    using r by linarith+
  show ?thesis
    unfolding time_Parse_def
    using d r by (simp add: getnum_fmt atoi4 isDigit_def digit_char_props parseFraction_Nil) arith
qed


lemma digits4:
  fixes n :: nat
  shows "n = n div 1000 * 1000 + n div 100 mod 10 * 100 + n div 10 mod 10 * 10 + n mod 10"
proof -
  have lin: "\<And>a b c r0 r1 r2 :: nat. n = a * 10 + r0 \<Longrightarrow> a = b * 10 + r1 \<Longrightarrow> b = c * 10 + r2
      \<Longrightarrow> n = c * 1000 + r2 * 100 + r1 * 10 + r0"
    by simp
  have s: "\<And>m :: nat. m = m div 10 * 10 + m mod 10"
    by simp
  have "n = n div 10 div 10 div 10 * 1000 + n div 10 div 10 mod 10 * 100 + n div 10 mod 10 * 10
      + n mod 10"
    by (rule lin [OF s s s])
  then show ?thesis
    by (simp add: div_mult2_eq [symmetric])
qed

lemma time_Parse_Format:
  assumes "valid_Time t"
  shows "time_Parse (time_Format t) = Some (t\<lparr>nsec := 0\<rparr>)"
proof -
  from assms have b: "year t < 10000" "month t < 100" "day t < 100" "hour t < 100"
      "minute t < 100" "second t < 100"
    and r: "1 \<le> month t" "month t \<le> 12" "1 \<le> day t" "day t \<le> daysIn (month t) (year t)"
      "hour t < 24" "minute t < 60" "second t < 60"
    by (auto simp: valid_Time_def daysIn_def split: if_splits)
  define y3 y2 y1 y0 where "y3 = year t div 1000" and "y2 = year t div 100 mod 10"
    and "y1 = year t div 10 mod 10" and "y0 = year t mod 10"
  define m1 m0 where "m1 = month t div 10" and "m0 = month t mod 10"
  define d1 d0 where "d1 = day t div 10" and "d0 = day t mod 10"
  define h1 h0 where "h1 = hour t div 10" and "h0 = hour t mod 10"
  define i1 i0 where "i1 = minute t div 10" and "i0 = minute t mod 10"
  define s1 s0 where "s1 = second t div 10" and "s0 = second t mod 10"
  note defs = y3_def y2_def y1_def y0_def m1_def m0_def d1_def d0_def h1_def h0_def i1_def
    i0_def s1_def s0_def
  have d: "y3 < 10" "y2 < 10" "y1 < 10" "y0 < 10" "m1 < 10" "m0 < 10" "d1 < 10" "d0 < 10"
      "h1 < 10" "h0 < 10" "i1 < 10" "i0 < 10" "s1 < 10" "s0 < 10"
    using b by (simp_all add: defs)
  have e: "year t = y3 * 1000 + y2 * 100 + y1 * 10 + y0" "month t = m1 * 10 + m0"
      "day t = d1 * 10 + d0" "hour t = h1 * 10 + h0" "minute t = i1 * 10 + i0"
      "second t = s1 * 10 + s0"
    unfolding defs by (rule digits4, simp_all)
  have f: "time_Format t
    = [digit_char y3, digit_char y2, digit_char y1, digit_char y0, digit_char m1, digit_char m0,
       digit_char d1, digit_char d0, CHR ''-'', digit_char h1, digit_char h0, digit_char i1,
       digit_char i0, digit_char s1, digit_char s0]"
    unfolding defs using b by (simp add: time_Format_def appendInt2 appendInt4)
  have "time_Parse (time_Format t)
    = Some \<lparr>year = y3 * 1000 + y2 * 100 + y1 * 10 + y0, month = m1 * 10 + m0,
        day = d1 * 10 + d0, hour = h1 * 10 + h0, minute = i1 * 10 + i0, second = s1 * 10 + s0,
        nsec = 0\<rparr>"
    unfolding f using d r [unfolded e] by (rule time_Parse_digits)
  then show ?thesis
    by (simp add: e [symmetric])
qed

lemma time_Format_nonempty: "time_Format t \<noteq> []"
  by (simp add: time_Format_def)

lemma parsePreviousTimestamp_backupName:
  assumes "valid_Time t"
  shows "parsePreviousTimestamp (backupName t) = t\<lparr>nsec := 0\<rparr>"
proof -
  have l: "length (backupName t) > 9"
    using time_Format_nonempty [of t] by (simp add: backupName_def)
  have p: "take 9 (backupName t) = ''previous-''" and d: "drop 9 (backupName t) = time_Format t"
    by (simp_all add: backupName_def)
  show ?thesis
    unfolding parsePreviousTimestamp_def using l p d time_Parse_Format [OF assms] by simp
qed

lemma time_Format_nsec: "time_Format (t\<lparr>nsec := n\<rparr>) = time_Format t"
  by (simp add: time_Format_def)

text \<open>
  Claim C9. For every time stamp the supervisor generates, that is the name
  \<^verbatim>\<open>previous-<ts>\<close> that \<^verbatim>\<open>Update\<close> builds from \<^verbatim>\<open>time.Now().Format("20060102-150405")\<close>
  at a civil time with a four-digit year, \<^verbatim>\<open>parsePreviousTimestamp\<close> recovers a time whose
  formatting is the original string.
\<close>

theorem previous_timestamp_roundtrip:
  "valid_Time now \<Longrightarrow>
   ''previous-'' @ time_Format (parsePreviousTimestamp (backupName now)) = backupName now"
proof -
  assume v: "valid_Time now"
  have "time_Format (parsePreviousTimestamp (backupName now)) = time_Format now"
    by (simp only: parsePreviousTimestamp_backupName [OF v] time_Format_nsec)
  then show ?thesis
    by (simp only: backupName_def)
qed

theorem previous_timestamp_roundtrip_witness:
  "valid_Time \<lparr>year = 2026, month = 1, day = 9, hour = 10, minute = 45, second = 0, nsec = 123\<rparr>
   \<and> ''previous-'' @ time_Format (parsePreviousTimestamp (backupName
        \<lparr>year = 2026, month = 1, day = 9, hour = 10, minute = 45, second = 0, nsec = 123\<rparr>))
     = ''previous-20260109-104500''"
proof -
  have h: "valid_Time \<lparr>year = 2026, month = 1, day = 9, hour = 10, minute = 45, second = 0,
      nsec = 123\<rparr>"
    by code_simp
  have n: "backupName \<lparr>year = 2026, month = 1, day = 9, hour = 10, minute = 45, second = 0,
      nsec = 123\<rparr> = ''previous-20260109-104500''"
    by code_simp
  show ?thesis
    using h previous_timestamp_roundtrip [OF h] by (simp only: n simp_thms)
qed

section \<open>Checking for an update\<close>

lemma Versions_loop_map_filter:
  "Versions_loop lib tags acc = acc @ List.map_filter (NewVersion lib) tags"
  by (induction tags arbitrary: acc) (auto simp: List.map_filter_simps split: option.splits)

lemma Versions_loop_unparsable:
  "\<forall>t \<in> set tags. NewVersion lib t = None \<Longrightarrow> Versions_loop lib tags acc = acc"
  by (induction tags arbitrary: acc) auto

text \<open>
  Claim C1, at the input where the code leaves it. The registry lists the tags
  \<^verbatim>\<open>1.10.0\<close> and \<^verbatim>\<open>1.9.0\<close> in this order (the lexical order of the strings), the
  supervisor runs version 1.9.0: both tags parse and are kept, 1.10.0 is the greater by
  precedence, and \<^verbatim>\<open>CheckForUpdate\<close> takes the last one, 1.9.0, as the latest and reports
  no update.
\<close>

theorem CheckForUpdate_latest_is_last_tag:
  "CheckForUpdate semver_model (SemVer 1 9 0 []) (Some [''1.10.0'', ''1.9.0''])
     = (None, [SemVer 1 10 0 [], SemVer 1 9 0 []], None)
   \<and> GreaterThan semver_model (SemVer 1 10 0 []) (SemVer 1 9 0 [])"
  by code_simp

text \<open>
  Claim C10. When the registry lists its tags and none of them parses as a semantic
  version (the list may be empty or not), \<^verbatim>\<open>CheckForUpdate\<close> returns the error
  \<^verbatim>\<open>no versions found in repository\<close>, no update candidate and no versions.
\<close>

theorem CheckForUpdate_no_parsable_tag:
  "\<forall>t \<in> set tags. NewVersion lib t = None \<Longrightarrow>
   CheckForUpdate lib currentVersion (Some tags) = (None, [], Some NoVersionsFound)"
  by (simp add: CheckForUpdate_def Versions_def Versions_loop_unparsable)

theorem CheckForUpdate_no_parsable_tag_witness:
  "CheckForUpdate semver_model (SemVer 1 9 0 []) (Some [''latest'', ''main''])
     = (None, [], Some NoVersionsFound)"
proof -
  have h: "\<forall>t \<in> set [''latest'', ''main'']. NewVersion semver_model t = None"
    by code_simp
  show ?thesis
    by (rule CheckForUpdate_no_parsable_tag [OF h])
qed

lemma lookup_Nil [simp]: "lookup fs [] = Some Dir"
  by (simp add: lookup_def)

lemma is_symlink_simps [simp]:
  "is_symlink None = False" "is_symlink (Some Dir) = False"
  "is_symlink (Some (File m b)) = False" "is_symlink (Some (Symlink t)) = True"
  by (simp_all add: is_symlink_def)

lemma is_symlink_iff: "is_symlink n \<longleftrightarrow> (\<exists>t. n = Some (Symlink t))"
  by (auto simp: is_symlink_def split: option.splits node.splits)

lemma os_Readlink_eq_Some: "os_Readlink fs p = Some t \<longleftrightarrow> lookup fs p = Some (Symlink t)"
  by (auto simp: os_Readlink_def split: option.splits node.splits)

lemma os_Symlink_lookup:
  "os_Symlink t l fs = Some fs' \<Longrightarrow>
   lookup fs l = None \<and> l \<noteq> [] \<and> lookup fs (butlast l) = Some Dir
   \<and> (\<forall>q. lookup fs' q = (if q = l then Some (Symlink t) else lookup fs q))"
  by (auto simp: os_Symlink_def lookup_put split: if_splits)

lemma os_Symlink_frame:
  "os_Symlink t l fs = Some fs' \<Longrightarrow>
   lookup fs' q = lookup fs q \<or> (q = l \<and> lookup fs q = None \<and> lookup fs' q = Some (Symlink t))"
  by (auto simp: os_Symlink_def lookup_put split: if_splits)

lemma os_Symlink_None:
  "os_Symlink t l fs = None \<longleftrightarrow> (l = [] \<or> lookup fs l \<noteq> None \<or> lookup fs (butlast l) \<noteq> Some Dir)"
  by (simp add: os_Symlink_def)

lemma os_Remove_lookup:
  "os_Remove p fs = Some fs' \<Longrightarrow>
   p \<noteq> [] \<and> lookup fs p \<noteq> None \<and> (\<forall>q. lookup fs' q = (if q = p then None else lookup fs q))"
  by (auto simp: os_Remove_def lookup_del split: option.splits node.splits if_splits)

lemma remove_quiet_lookup:
  "lookup (remove_quiet p fs) q = lookup fs q \<or> (q = p \<and> lookup (remove_quiet p fs) q = None)"
  by (cases "os_Remove p fs") (auto simp: remove_quiet_def dest!: os_Remove_lookup split: if_splits)

lemma remove_quiet_symlink:
  "is_symlink (lookup fs p) \<or> lookup fs p = None \<Longrightarrow>
   lookup (remove_quiet p fs) q = (if q = p then None else lookup fs q)"
  by (auto simp: remove_quiet_def os_Remove_def lookup_del is_symlink_iff
      split: option.splits node.splits if_splits)

lemma mkdirs_lookup:
  "mkdirs cur ds fs = Some fs' \<Longrightarrow>
   lookup fs' q = lookup fs q
   \<or> (lookup fs q = None \<and> lookup fs' q = Some Dir \<and> prefix q (cur @ ds) \<and> length cur < length q)"
proof (induction ds arbitrary: cur fs)
  case Nil
  then show ?case by simp
next
  case (Cons c cs)
  show ?case
  proof (cases "lookup fs (cur @ [c])")
    case None
    with Cons.prems have m: "mkdirs (cur @ [c]) cs (put (cur @ [c]) Dir fs) = Some fs'"
      by simp
    from Cons.IH [OF m] None show ?thesis
      by (auto simp: lookup_put split: if_splits)
  next
    case (Some n)
    with Cons.prems have n: "n = Dir" and m: "mkdirs (cur @ [c]) cs fs = Some fs'"
      by (auto split: node.splits)
    from Cons.IH [OF m] show ?thesis
      by auto
  qed
qed

lemma mkdirs_Dir:
  "mkdirs cur ds fs = Some fs' \<Longrightarrow> lookup fs cur = Some Dir \<Longrightarrow> lookup fs' (cur @ ds) = Some Dir"
proof (induction ds arbitrary: cur fs)
  case Nil
  then show ?case by simp
next
  case (Cons c cs)
  show ?case
  proof (cases "lookup fs (cur @ [c])")
    case None
    with Cons.prems have m: "mkdirs (cur @ [c]) cs (put (cur @ [c]) Dir fs) = Some fs'"
      by simp
    have "lookup (put (cur @ [c]) Dir fs) (cur @ [c]) = Some Dir"
      by (simp add: lookup_put)
    from Cons.IH [OF m this] show ?thesis by simp
  next
    case (Some n)
    with Cons.prems have n: "n = Dir" and m: "mkdirs (cur @ [c]) cs fs = Some fs'"
      by (auto split: node.splits)
    from Cons.IH [OF m] Some n show ?thesis by simp
  qed
qed

lemma mkdirs_prefix_Dir:
  "mkdirs cur ds fs = Some fs' \<Longrightarrow> lookup fs cur = Some Dir \<Longrightarrow> k \<le> length ds \<Longrightarrow>
   lookup fs' (cur @ take k ds) = Some Dir"
proof (induction ds arbitrary: cur fs k)
  case Nil
  then show ?case by simp
next
  case (Cons c cs)
  show ?case
  proof (cases k)
    case 0
    from mkdirs_lookup [OF Cons.prems(1), of cur] Cons.prems(2) 0 show ?thesis by auto
  next
    case (Suc j)
    show ?thesis
    proof (cases "lookup fs (cur @ [c])")
      case None
      with Cons.prems have m: "mkdirs (cur @ [c]) cs (put (cur @ [c]) Dir fs) = Some fs'"
        by simp
      have "lookup (put (cur @ [c]) Dir fs) (cur @ [c]) = Some Dir"
        by (simp add: lookup_put)
      from Cons.IH [OF m this, of j] Suc Cons.prems(3) show ?thesis by simp
    next
      case (Some n)
      with Cons.prems have n: "n = Dir" and m: "mkdirs (cur @ [c]) cs fs = Some fs'"
        by (auto split: node.splits)
      from Cons.IH [OF m, of j] Some n Suc Cons.prems(3) show ?thesis by simp
    qed
  qed
qed

lemma os_MkdirAll_lookup:
  "os_MkdirAll p fs = Some fs' \<Longrightarrow>
   lookup fs' q = lookup fs q \<or> (lookup fs q = None \<and> lookup fs' q = Some Dir \<and> prefix q p)"
  using mkdirs_lookup [of "[]" p fs fs' q] by (auto simp: os_MkdirAll_def)

lemma os_MkdirAll_Dir:
  "os_MkdirAll p fs = Some fs' \<Longrightarrow> prefix q p \<Longrightarrow> lookup fs' q = Some Dir"
proof -
  assume a: "os_MkdirAll p fs = Some fs'" and "prefix q p"
  then obtain k where k: "q = take k p" "k \<le> length p"
    by (metis prefix_def append_eq_conv_conj length_append le_add1)
  have "lookup fs [] = Some Dir" by (simp add: lookup_def)
  from mkdirs_prefix_Dir [OF a [unfolded os_MkdirAll_def] this k(2)] k show ?thesis by simp
qed

lemma map_of_filter_key:
  "map_of (filter (\<lambda>(p, n). Q p) xs) q = (if Q q then map_of xs q else None)"
  by (induction xs) auto

lemma map_of_moved:
  "map_of (map (\<lambda>(p, n). (new @ drop (length old) p, n)) (filter (\<lambda>(p, n). prefix old p) xs)) (new @ r)
   = map_of xs (old @ r)"
proof (induction xs)
  case Nil
  then show ?case by simp
next
  case (Cons a xs)
  obtain p n where a: "a = (p, n)" by (cases a)
  show ?case
  proof (cases "prefix old p")
    case True
    then obtain z where z: "p = old @ z" by (auto simp: prefix_def)
    with Cons a True show ?thesis by simp
  next
    case False
    then have "p \<noteq> old @ r" by (auto simp: prefix_def)
    with Cons a False show ?thesis by simp
  qed
qed

lemma map_of_moved_None:
  "\<not> prefix new q \<Longrightarrow>
   map_of (map (\<lambda>(p, n). (new @ drop (length old) p, n)) (filter (\<lambda>(p, n). prefix old p) xs)) q = None"
  by (induction xs) (auto simp: prefix_def)

lemma lookup_move_tree_other:
  "\<not> prefix old q \<Longrightarrow> \<not> prefix new q \<Longrightarrow> lookup (move_tree old new fs) q = lookup fs q"
  by (auto simp: lookup_def move_tree_def map_add_def map_of_moved_None map_of_filter_key
      split: option.splits)

lemma lookup_move_tree_new:
  "new \<noteq> [] \<Longrightarrow> old \<noteq> [] \<Longrightarrow> lookup (move_tree old new fs) (new @ r) =
     (case lookup fs (old @ r) of Some v \<Rightarrow> Some v
      | None \<Rightarrow> if \<not> prefix old (new @ r) \<and> r \<noteq> [] then lookup fs (new @ r) else None)"
  by (auto simp: lookup_def move_tree_def map_add_def map_of_moved map_of_filter_key
      split: option.splits)

lemma os_Rename_file:
  assumes "os_Rename old new fs = Some fs'" "lookup fs old = Some n" "n \<noteq> Dir"
  shows "lookup fs' q = (if q = new then Some n else if q = old then None else lookup fs q)"
  using assms
  by (cases n) (auto simp: os_Rename_def lookup_put lookup_del split: if_splits option.splits node.splits)

lemma os_Rename_dir:
  assumes "os_Rename old new fs = Some fs'" "lookup fs old = Some Dir"
  shows "lookup fs' new = Some Dir"
    and "\<not> prefix old q \<Longrightarrow> \<not> prefix new q \<Longrightarrow> lookup fs' q = lookup fs q"
    and "old = new \<or> \<not> prefix old new"
  using assms lookup_move_tree_new [of new old fs "[]"]
  by (auto simp: os_Rename_def lookup_move_tree_other split: if_splits option.splits node.splits)

lemma os_Rename_exists:
  "os_Rename old new fs = Some fs' \<Longrightarrow> old \<noteq> [] \<and> new \<noteq> [] \<and> lookup fs old \<noteq> None \<and> lookup fs (butlast new) = Some Dir"
  by (auto simp: os_Rename_def split: if_splits option.splits)

text \<open>children\<close>

lemma set_children: "set (children fs d) = {n. map_of fs (d @ [n]) \<noteq> None}"
proof -
  have "set (children fs d) = last ` {p \<in> fst ` set fs. p \<noteq> [] \<and> butlast p = d}"
    by (auto simp: children_def)
  also have "\<dots> = {n. d @ [n] \<in> fst ` set fs}"
  proof (intro set_eqI iffI)
    fix n assume "n \<in> last ` {p \<in> fst ` set fs. p \<noteq> [] \<and> butlast p = d}"
    then obtain p where p: "p \<in> fst ` set fs" "p \<noteq> []" "butlast p = d" "n = last p" by auto
    then have "d @ [n] = p" using append_butlast_last_id [of p] by simp
    with p show "n \<in> {n. d @ [n] \<in> fst ` set fs}" by simp
  next
    fix n assume "n \<in> {n. d @ [n] \<in> fst ` set fs}"
    then have "d @ [n] \<in> {p \<in> fst ` set fs. p \<noteq> [] \<and> butlast p = d}" by simp
    then have "last (d @ [n]) \<in> last ` {p \<in> fst ` set fs. p \<noteq> [] \<and> butlast p = d}"
      by (rule imageI)
    then show "n \<in> last ` {p \<in> fst ` set fs. p \<noteq> [] \<and> butlast p = d}" by simp
  qed
  also have "\<dots> = {n. map_of fs (d @ [n]) \<noteq> None}"
    by (simp add: map_of_eq_None_iff)
  finally show ?thesis .
qed

lemma set_children_lookup: "set (children fs d) = {n. lookup fs (d @ [n]) \<noteq> None}"
  by (simp add: set_children lookup_def)

lemma children_sorted: "sorted (children fs d)" and children_distinct: "distinct (children fs d)"
  by (simp_all add: children_def)

lemma ModePerm_ModeSymlink: "ModePerm AND ModeSymlink = 0"
  by (simp add: ModePerm_def ModeSymlink_def)

lemma symlink_bit: "info_Mode n AND ModeSymlink \<noteq> 0 \<longleftrightarrow> is_symlink (Some n)"
proof (cases n)
  case Dir
  have "(ModeDir OR 0x1ED) AND ModeSymlink = 0"
    by (simp add: ModeDir_def ModeSymlink_def)
  with Dir show ?thesis by simp
next
  case (File m b)
  have "(m AND ModePerm) AND ModeSymlink = m AND (ModePerm AND ModeSymlink)"
    by (simp add: and.assoc)
  with File show ?thesis by (simp add: ModePerm_ModeSymlink)
next
  case (Symlink t)
  have "(ModeSymlink OR ModePerm) AND ModeSymlink \<noteq> 0"
    by (simp add: ModePerm_def ModeSymlink_def)
  with Symlink show ?thesis by simp
qed

lemma map_filter_total:
  "\<forall>x \<in> set xs. f x \<noteq> None \<Longrightarrow> List.map_filter f xs = map (\<lambda>x. the (f x)) xs"
  by (induction xs) (auto simp: List.map_filter_simps)

lemma os_ReadDir_eq:
  "os_ReadDir fs d =
     (if lookup fs d = Some Dir
      then Some (map (\<lambda>n. (n, the (lookup fs (d @ [n])))) (children fs d)) else None)"
proof -
  have "\<forall>n \<in> set (children fs d). map_option (Pair n) (lookup fs (d @ [n])) \<noteq> None"
    by (simp add: set_children_lookup)
  from map_filter_total [OF this] show ?thesis
    by (auto simp: os_ReadDir_def set_children_lookup split: option.splits node.splits
        intro!: map_cong)
qed

lemma backups_loop_eq:
  "backups_loop cfg es acc =
     acc @ map (\<lambda>(n, nd). dataDir cfg @ [n])
             (filter (\<lambda>(n, nd). is_symlink (Some nd) \<and> is_backup_name n) es)"
  by (induction es arbitrary: acc) (simp_all add: symlink_bit is_backup_name_def split: prod.splits)

lemma finite_backup_set: "finite (backup_set cfg fs)"
proof -
  have "backup_set cfg fs \<subseteq> (\<lambda>n. dataDir cfg @ [n]) ` set (children fs (dataDir cfg))"
    by (auto simp: backup_set_def set_children_lookup is_symlink_iff)
  then show ?thesis by (rule finite_subset) simp
qed

lemma sort_distinct: "distinct xs \<Longrightarrow> sort xs = sorted_list_of_set (set xs)"
  by (simp add: sorted_list_of_set_sort_remdups distinct_remdups_id)

lemma getBackupSymlinks_eq:
  "getBackupSymlinks cfg fs =
     (if lookup fs (dataDir cfg) = Some Dir then Some (sorted_list_of_set (backup_set cfg fs))
      else None)"
proof (cases "lookup fs (dataDir cfg) = Some Dir")
  case False
  then show ?thesis by (simp add: getBackupSymlinks_def os_ReadDir_eq)
next
  case True
  let ?d = "dataDir cfg"
  let ?es = "map (\<lambda>n. (n, the (lookup fs (?d @ [n])))) (children fs ?d)"
  let ?bs = "map (\<lambda>(n, nd). ?d @ [n])
             (filter (\<lambda>(n, nd). is_symlink (Some nd) \<and> is_backup_name n) ?es)"
  let ?ns = "filter (\<lambda>n. is_symlink (lookup fs (?d @ [n])) \<and> is_backup_name n) (children fs ?d)"
  have c: "\<And>n. n \<in> set (children fs ?d) \<Longrightarrow> Some (the (lookup fs (?d @ [n]))) = lookup fs (?d @ [n])"
    by (auto simp: set_children_lookup)
  have f: "filter (\<lambda>x. is_symlink (Some (the (lookup fs (?d @ [x])))) \<and> is_backup_name x)
        (children fs ?d) = ?ns"
    by (rule filter_cong) (simp_all add: c)
  have e: "?bs = map (\<lambda>n. ?d @ [n]) ?ns"
    by (simp add: filter_map comp_def f)
  have d: "distinct ?bs"
    unfolding e by (simp add: distinct_map children_distinct inj_on_def)
  have s: "set ?bs = backup_set cfg fs"
    unfolding e by (auto simp: backup_set_def set_children_lookup is_symlink_iff)
  have "sort ?bs = sorted_list_of_set (backup_set cfg fs)"
    using sort_distinct [OF d] by (simp only: s)
  with True show ?thesis
    by (simp add: getBackupSymlinks_def os_ReadDir_eq backups_loop_eq)
qed

lemma getBackupSymlinks_Some:
  "getBackupSymlinks cfg fs = Some bs \<Longrightarrow>
   lookup fs (dataDir cfg) = Some Dir \<and> sorted bs \<and> distinct bs \<and> set bs = backup_set cfg fs"
  using finite_backup_set [of cfg fs]
  by (auto simp: getBackupSymlinks_eq split: if_splits)

lemma grow_refl [simp]: "grow a a"
  by (simp add: grow_def)

lemma grow_trans: "grow a b \<Longrightarrow> grow b c \<Longrightarrow> grow a c"
  by (auto simp: grow_def)

lemma grows_refl [simp]: "grows fs fs"
  by (simp add: grows_def)

lemma grows_trans: "grows a b \<Longrightarrow> grows b c \<Longrightarrow> grows a c"
  unfolding grows_def using grow_trans by blast

lemma grow_symlink: "grow a b \<Longrightarrow> (b = Some (Symlink t)) = (a = Some (Symlink t))"
  by (auto simp: grow_def)

lemma grow_Dir: "grow (Some Dir) b \<Longrightarrow> b = Some Dir"
  by (auto simp: grow_def)

lemma grow_None: "grow a None \<Longrightarrow> a = None"
  by (auto simp: grow_def)

lemma grows_symlink: "grows fs fs' \<Longrightarrow> (lookup fs' q = Some (Symlink t)) = (lookup fs q = Some (Symlink t))"
  by (simp add: grows_def grow_symlink)

lemma grows_is_symlink: "grows fs fs' \<Longrightarrow> is_symlink (lookup fs' q) = is_symlink (lookup fs q)"
  by (simp add: is_symlink_iff grows_symlink)

lemma grows_Readlink: "grows fs fs' \<Longrightarrow> os_Readlink fs' q = os_Readlink fs q"
  by (metis grows_symlink os_Readlink_eq_Some option.exhaust)

lemma grows_Dir: "grows fs fs' \<Longrightarrow> lookup fs q = Some Dir \<Longrightarrow> lookup fs' q = Some Dir"
  by (metis grows_def grow_Dir)

lemma grows_None: "grows fs fs' \<Longrightarrow> lookup fs' q = None \<Longrightarrow> lookup fs q = None"
  by (metis grows_def grow_None)

lemma grows_backup_set: "grows fs fs' \<Longrightarrow> backup_set cfg fs' = backup_set cfg fs"
  by (simp add: backup_set_def grows_is_symlink)

lemma put_File_grows:
  assumes "lookup fs p = None \<or> (\<exists>m c. lookup fs p = Some (File m c))"
  shows "grows fs (put p (File m b) fs)"
proof -
  from assms have "p \<noteq> []" by auto
  with assms show ?thesis
    unfolding grows_def grow_def by (simp add: lookup_put)
qed

lemma os_MkdirAll_grows: "os_MkdirAll p fs = Some fs' \<Longrightarrow> grows fs fs'"
  unfolding grows_def grow_def using os_MkdirAll_lookup [of p fs fs'] by blast

lemma write_files_grows: "write_files d files fs = (ok, fs') \<Longrightarrow> grows fs fs'"
proof (induction files arbitrary: fs)
  case Nil
  then show ?case by simp
next
  case (Cons f files)
  obtain name b where f: "f = (name, b)" by (cases f)
  show ?case
  proof (cases "lookup fs (d @ [name]) = Some Dir \<or> is_symlink (lookup fs (d @ [name]))")
    case True
    with Cons.prems f show ?thesis by (auto simp: is_symlink_iff)
  next
    case False
    then have k: "lookup fs (d @ [name]) = None \<or> (\<exists>m c. lookup fs (d @ [name]) = Some (File m c))"
      by (cases "lookup fs (d @ [name])") (auto simp: is_symlink_iff intro: node.exhaust)
    with Cons.prems f have w: "write_files d files (put (d @ [name]) (File 0x1A4 b) fs) = (ok, fs')"
      by auto
    have "grows fs (put (d @ [name]) (File 0x1A4 b) fs)"
      using k by (rule put_File_grows)
    from grows_trans [OF this Cons.IH [OF w]] show ?thesis .
  qed
qed

lemma os_Chmod_grows: "os_Chmod p m fs = Some fs' \<Longrightarrow> grows fs fs'"
  by (auto simp: os_Chmod_def split: option.splits node.splits intro!: put_File_grows)

lemma chmod_entries_grows: "chmod_entries cfg d es fs = (e, fs') \<Longrightarrow> grows fs fs'"
proof (induction es arbitrary: fs)
  case Nil
  then show ?case by simp
next
  case (Cons x es)
  obtain name n where x: "x = (name, n)" by (cases x)
  show ?case
  proof (cases "n = Dir \<or> name \<noteq> BinaryName cfg")
    case True
    with Cons.prems x have "chmod_entries cfg d es fs = (e, fs')" by (auto split: if_splits)
    then show ?thesis by (rule Cons.IH)
  next
    case False
    show ?thesis
    proof (cases "os_Chmod (d @ [name]) 0x1ED fs")
      case None
      with Cons.prems x False show ?thesis by auto
    next
      case (Some fs1)
      with Cons.prems x False have "chmod_entries cfg d es fs1 = (e, fs')" by auto
      from grows_trans [OF os_Chmod_grows [OF Some] Cons.IH [OF this]] show ?thesis .
    qed
  qed
qed

lemma DownloadUpdate_grows: "DownloadUpdate cfg env v d fs = (e, fs') \<Longrightarrow> grows fs fs'"
  unfolding DownloadUpdate_def oras_Copy_def
  by (auto split: option.splits prod.splits bool.splits
      dest!: os_MkdirAll_grows write_files_grows chmod_entries_grows intro: grows_trans)

lemma stage_grows: "stage cfg env v fs = (e, fs') \<Longrightarrow> grows fs fs'"
  unfolding stage_def Let_def
  by (auto split: option.splits prod.splits
      dest!: os_MkdirAll_grows DownloadUpdate_grows intro: grows_trans)

lemma stage_dataDir:
  assumes "stage cfg env v fs = (None, fs')"
  shows "lookup fs' (dataDir cfg) = Some Dir"
proof -
  from assms obtain fs1 where m: "os_MkdirAll (dataDir cfg @ [''versions'']) fs = Some fs1"
    and g: "grows fs1 fs'"
    unfolding stage_def Let_def
    by (auto split: option.splits prod.splits
        dest!: os_MkdirAll_grows DownloadUpdate_grows intro: grows_trans)
  from os_MkdirAll_Dir [OF m, of "dataDir cfg"] have "lookup fs1 (dataDir cfg) = Some Dir"
    by simp
  with g show ?thesis by (rule grows_Dir)
qed

lemma stage_verified:
  "stage cfg env v fs = (None, fs') \<Longrightarrow>
   verifyBinary fs' (dataDir cfg @ [''versions'', v, BinaryName cfg]) = None"
  unfolding stage_def Let_def
  by (auto split: option.splits prod.splits)

lemma stage_errors: "stage cfg env v fs = (Some e, fs') \<Longrightarrow> stage_error e"
  unfolding stage_def Let_def stage_error_def
  by (auto split: option.splits prod.splits)

lemma backupCurrent_cases:
  assumes "backupCurrent cfg env fs = (e, fs')"
  shows "(e = None \<and> lookup fs (currentLink cfg) = None \<and> fs' = fs)
       \<or> (e = Some ReadCurrentFailed \<and> lookup fs (currentLink cfg) \<noteq> None
           \<and> \<not> is_symlink (lookup fs (currentLink cfg)) \<and> fs' = fs)
       \<or> (e = Some CreateBackupFailed \<and> is_symlink (lookup fs (currentLink cfg)) \<and> fs' = fs
           \<and> os_Symlink (the (os_Readlink fs (currentLink cfg))) (backupLink cfg (now_backup env)) fs = None)
       \<or> (e = None \<and> (\<exists>t. lookup fs (currentLink cfg) = Some (Symlink t)
           \<and> os_Symlink t (backupLink cfg (now_backup env)) fs = Some fs'))"
  using assms unfolding backupCurrent_def os_Lstat_def
  by (auto simp: os_Readlink_def is_symlink_iff split: option.splits node.splits)

lemma swapCurrent_cases:
  assumes "swapCurrent cfg env target fs = (e, fs')"
  shows "(e = Some CreateTempLinkFailed \<and> fs' = fs)
       \<or> (e = Some SwapFailed \<and> (\<forall>q. lookup fs' q = lookup fs q))
       \<or> (e = None \<and> lookup fs (dataDir cfg) = Some Dir
           \<and> (\<forall>q. lookup fs' q = (if q = currentLink cfg then Some (Symlink target) else lookup fs q)))"
proof (cases "os_Symlink target (tempLink cfg (now_temp env)) fs")
  case None
  with assms show ?thesis by (simp add: swapCurrent_def)
next
  case (Some fs1)
  note s = os_Symlink_lookup [OF Some]
  have tc: "tempLink cfg (now_temp env) \<noteq> currentLink cfg"
    by (simp add: tempLink_def currentLink_def)
  have d: "lookup fs (dataDir cfg) = Some Dir"
    using s by (simp add: tempLink_def)
  show ?thesis
  proof (cases "os_Rename (tempLink cfg (now_temp env)) (currentLink cfg) fs1")
    case None
    with assms Some have e: "e = Some SwapFailed"
      and f: "fs' = remove_quiet (tempLink cfg (now_temp env)) fs1"
      by (simp_all add: swapCurrent_def)
    have "is_symlink (lookup fs1 (tempLink cfg (now_temp env)))" using s by simp
    then have "\<forall>q. lookup fs' q = lookup fs q"
      unfolding f using s by (simp add: remove_quiet_symlink)
    with e show ?thesis by simp
  next
    case (Some fs2)
    with assms \<open>os_Symlink target (tempLink cfg (now_temp env)) fs = Some fs1\<close>
    have e: "e = None" and f: "fs' = fs2"
      by (simp_all add: swapCurrent_def)
    have l: "lookup fs1 (tempLink cfg (now_temp env)) = Some (Symlink target)" using s by simp
    have "\<forall>q. lookup fs' q = (if q = currentLink cfg then Some (Symlink target) else lookup fs q)"
      unfolding f using os_Rename_file [OF Some l] s tc by auto
    with e d show ?thesis by simp
  qed
qed

lemma swap_errors:
  "swapCurrent cfg env target fs = (Some e, fs') \<Longrightarrow> e = CreateTempLinkFailed \<or> e = SwapFailed"
  using swapCurrent_cases [of cfg env target fs "Some e" fs'] by auto

lemma commit_errors:
  "commit cfg env fs = (Some e, fs') \<Longrightarrow> e = SignalFailed \<or> (\<exists>b. e = UpdateBinFailed b)"
  unfolding commit_def by (auto split: option.splits prod.splits if_splits)

lemma backup_name_ne_current: "is_backup_name n \<Longrightarrow> dataDir cfg @ [n] \<noteq> currentLink cfg"
  by (auto simp: currentLink_def is_backup_name_def)

lemma backupLink_ne_current: "backupLink cfg t \<noteq> currentLink cfg"
  by (simp add: backupLink_def currentLink_def backupName_def)

lemma stage_error_before: "stage_error e \<Longrightarrow> before_backup e"
  by (auto simp: stage_error_def)

lemma grows_links:
  assumes "grows fs fs'"
  shows "os_Readlink fs' c = os_Readlink fs c \<and> backup_set cfg fs \<subseteq> backup_set cfg fs'
       \<and> (\<forall>b \<in> backup_set cfg fs. lookup fs' b = lookup fs b)"
proof -
  have "\<forall>b \<in> backup_set cfg fs. lookup fs' b = lookup fs b"
  proof
    fix b assume "b \<in> backup_set cfg fs"
    then have "is_symlink (lookup fs b)" unfolding backup_set_def by blast
    then obtain t where "lookup fs b = Some (Symlink t)" unfolding is_symlink_iff by blast
    then show "lookup fs' b = lookup fs b" by (simp add: grows_symlink [OF assms])
  qed
  then show ?thesis
    by (simp add: grows_Readlink [OF assms] grows_backup_set [OF assms])
qed

lemma Readlink_cong: "lookup fs' c = lookup fs c \<Longrightarrow> os_Readlink fs' c = os_Readlink fs c"
  by (simp add: os_Readlink_def)

lemma before_backup_swap: "before_backup e \<Longrightarrow> before_swap e"
  by (cases e) simp_all

lemma grows_failure_post: "grows fs fs' \<Longrightarrow> failure_post cfg fs fs'"
  unfolding failure_post_def by (rule grows_links)

lemma backupCurrent_frame:
  assumes "backupCurrent cfg env fs1 = (None, fs2)"
  shows "lookup fs2 q = lookup fs1 q \<or> (q = backupLink cfg (now_backup env) \<and> lookup fs1 q = None)"
proof -
  from backupCurrent_cases [OF assms] consider "fs2 = fs1"
    | t where "os_Symlink t (backupLink cfg (now_backup env)) fs1 = Some fs2"
    by auto
  then show ?thesis
  proof cases
    case 1
    then show ?thesis by simp
  next
    case 2
    from os_Symlink_frame [OF this, of q] show ?thesis by auto
  qed
qed

lemma backupCurrent_failed:
  assumes "backupCurrent cfg env fs1 = (Some x, fs2)"
  shows "fs2 = fs1 \<and> before_backup x"
  using backupCurrent_cases [OF assms] by auto

lemma swapCurrent_failed:
  assumes "swapCurrent cfg env target fs2 = (Some x, fs3)"
  shows "(\<forall>q. lookup fs3 q = lookup fs2 q) \<and> before_swap x \<and> \<not> before_backup x"
  using swapCurrent_cases [OF assms] by auto

lemma backup_setI:
  "is_backup_name name \<Longrightarrow> is_symlink (lookup fs (dataDir cfg @ [name])) \<Longrightarrow>
   dataDir cfg @ [name] \<in> backup_set cfg fs"
  unfolding backup_set_def by blast

lemma backup_setE:
  assumes "b \<in> backup_set cfg fs"
  obtains name t where "b = dataDir cfg @ [name]" "is_backup_name name"
    "lookup fs b = Some (Symlink t)"
  using assms unfolding backup_set_def is_symlink_iff by blast

lemma backup_set_mono:
  assumes "\<And>b. b \<in> backup_set cfg fs \<Longrightarrow> lookup fs' b = lookup fs b"
  shows "backup_set cfg fs \<subseteq> backup_set cfg fs'"
proof
  fix b assume b: "b \<in> backup_set cfg fs"
  then obtain name t where n: "b = dataDir cfg @ [name]" "is_backup_name name"
    "lookup fs b = Some (Symlink t)"
    by (rule backup_setE)
  from assms [OF b] n(3) have "is_symlink (lookup fs' (dataDir cfg @ [name]))"
    unfolding n(1) by simp
  from backup_setI [OF n(2) this] show "b \<in> backup_set cfg fs'"
    unfolding n(1) .
qed

lemma swap_failure_post:
  assumes g1: "grows fs fs1"
    and f12: "\<And>q. lookup fs2 q = lookup fs1 q \<or> (q = backupLink cfg t \<and> lookup fs1 q = None)"
    and l: "\<forall>q. lookup fs' q = lookup fs2 q"
  shows "failure_post cfg fs fs'"
proof -
  have "lookup fs2 (currentLink cfg) = lookup fs1 (currentLink cfg)"
    using f12 [of "currentLink cfg"] backupLink_ne_current [of cfg t] by auto
  with l have "lookup fs' (currentLink cfg) = lookup fs1 (currentLink cfg)" by simp
  then have "os_Readlink fs' (currentLink cfg) = os_Readlink fs1 (currentLink cfg)"
    by (rule Readlink_cong)
  also have "\<dots> = os_Readlink fs (currentLink cfg)"
    by (rule grows_Readlink [OF g1])
  finally have r: "os_Readlink fs' (currentLink cfg) = os_Readlink fs (currentLink cfg)" .
  have k: "\<forall>b \<in> backup_set cfg fs. lookup fs' b = lookup fs b"
  proof
    fix b assume "b \<in> backup_set cfg fs"
    then obtain name u where u: "lookup fs b = Some (Symlink u)"
      by (rule backup_setE)
    then have "lookup fs1 b = Some (Symlink u)" by (simp add: grows_symlink [OF g1])
    then have "lookup fs2 b = Some (Symlink u)" using f12 [of b] by auto
    with l u show "lookup fs' b = lookup fs b" by simp
  qed
  then have "backup_set cfg fs \<subseteq> backup_set cfg fs'"
    by (intro backup_set_mono) simp
  with r k show ?thesis unfolding failure_post_def by blast
qed

text \<open>What a failed Update leaves.\<close>

lemma Update_failure:
  assumes u: "Update cfg env version fs = (Some e, fs')"
  shows "(before_backup e \<longrightarrow> grows fs fs') \<and> (before_swap e \<longrightarrow> failure_post cfg fs fs')"
proof -
  obtain e1 fs1 where st: "stage cfg env version fs = (e1, fs1)" by (cases "stage cfg env version fs")
  note g1 = stage_grows [OF st]
  show ?thesis
  proof (cases e1)
    case (Some x)
    with u st have ex: "e = x" "fs' = fs1" by (simp_all add: Update_def)
    from st Some have "stage_error x" by (auto dest: stage_errors)
    then have "before_backup e" unfolding ex by (rule stage_error_before)
    moreover have "grows fs fs'" unfolding ex by (rule g1)
    ultimately show ?thesis by (simp add: grows_failure_post)
  next
    case None
    obtain e2 fs2 where bk: "backupCurrent cfg env fs1 = (e2, fs2)"
      by (cases "backupCurrent cfg env fs1")
    show ?thesis
    proof (cases e2)
      case (Some x)
      with u st None bk have ex: "e = x" "fs' = fs2" by (simp_all add: Update_def)
      from backupCurrent_failed [OF bk [unfolded Some]] have "fs2 = fs1" "before_backup x" by simp_all
      then have "before_backup e" "grows fs fs'" unfolding ex using g1 by simp_all
      then show ?thesis by (simp add: grows_failure_post)
    next
      case N2: None
      note f12 = backupCurrent_frame [OF bk [unfolded N2]]
      obtain e3 fs3 where sw: "swapCurrent cfg env (dataDir cfg @ [''versions'', version]) fs2 = (e3, fs3)"
        by (cases "swapCurrent cfg env (dataDir cfg @ [''versions'', version]) fs2")
      show ?thesis
      proof (cases e3)
        case (Some x)
        with u st None bk N2 sw have ex: "e = x" "fs' = fs3" by (simp_all add: Update_def)
        from swapCurrent_failed [OF sw [unfolded Some]]
        have l: "\<forall>q. lookup fs3 q = lookup fs2 q" and b: "before_swap x" "\<not> before_backup x"
          by simp_all
        from swap_failure_post [OF g1 f12 l] b show ?thesis unfolding ex by simp
      next
        case N3: None
        with u st None bk N2 sw have "commit cfg env fs3 = (Some e, fs')"
          by (simp add: Update_def)
        from commit_errors [OF this] show ?thesis by auto
      qed
    qed
  qed
qed

end
